theory Spec2Isabelle
  imports Complex_Main
begin

section \<open>JavaScript values\<close>

text \<open>
  The program is TypeScript; at run time its numbers are JavaScript numbers. They are
  modelled as exact reals: rounding, NaN and the infinities are outside the model.
  The other values the program can meet are \<open>undefined\<close>, functions and objects; they
  appear where a property lookup leaves the pitch table (see \<open>getFrequency\<close>).
\<close>

datatype jsval =
    JUndefined
  | JNumber real
  | JFunction string
  | JObject string

fun truthy :: "jsval \<Rightarrow> bool" where
  "truthy JUndefined = False"
| "truthy (JNumber x) = (x \<noteq> 0)"
| "truthy (JFunction f) = True"
| "truthy (JObject ob) = True"

text \<open>The operator \<open>a || b\<close>: \<open>a\<close> when it is truthy, \<open>b\<close> otherwise.\<close>

definition js_or :: "jsval \<Rightarrow> jsval \<Rightarrow> jsval" where
  "js_or a b = (if truthy a then a else b)"

datatype error = TypeError | RangeError

text \<open>
  A call either returns or throws. A thrown exception does not undo the mutations made
  before it, so both outcomes carry the state.
\<close>

datatype 's outcome = Returned 's | Threw error 's

fun state_of :: "'s outcome \<Rightarrow> 's" where
  "state_of (Returned s) = s"
| "state_of (Threw e s) = s"

section \<open>The pitch table (\<open>getFrequency\<close>, audioPlayer.ts lines 46-65)\<close>

text \<open>The own properties of the object literal \<open>noteMap\<close>.\<close>

definition noteMap :: "(string \<times> real) list" where
  "noteMap =
    [(''c/4'', 261.63), (''d/4'', 293.66), (''e/4'', 329.63), (''f/4'', 349.23),
     (''g/4'', 392.00), (''a/4'', 440.00), (''b/4'', 493.88),
     (''c/5'', 523.25), (''d/5'', 587.33), (''e/5'', 659.25), (''f/5'', 698.46),
     (''g/5'', 783.99), (''a/5'', 880.00), (''b/5'', 987.77)]"

text \<open>
  \<open>noteMap\<close> is written as an object literal, so its prototype is \<open>Object.prototype\<close>
  and the lookup \<open>noteMap[note]\<close> continues there when \<open>note\<close> is not an own property.
  These are the properties of \<open>Object.prototype\<close> (ECMAScript, with Annex B): all are
  functions, except the accessor \<open>__proto__\<close>, whose getter yields the prototype object.
\<close>

definition Object_prototype :: "(string \<times> jsval) list" where
  "Object_prototype =
    [(''constructor'', JFunction ''Object''),
     (''hasOwnProperty'', JFunction ''hasOwnProperty''),
     (''isPrototypeOf'', JFunction ''isPrototypeOf''),
     (''propertyIsEnumerable'', JFunction ''propertyIsEnumerable''),
     (''toLocaleString'', JFunction ''toLocaleString''),
     (''toString'', JFunction ''toString''),
     (''valueOf'', JFunction ''valueOf''),
     (''__defineGetter__'', JFunction ''__defineGetter__''),
     (''__defineSetter__'', JFunction ''__defineSetter__''),
     (''__lookupGetter__'', JFunction ''__lookupGetter__''),
     (''__lookupSetter__'', JFunction ''__lookupSetter__''),
     (''__proto__'', JObject ''Object.prototype'')]"

text \<open>The property read \<open>noteMap[note]\<close>.\<close>

definition noteMap_get :: "string \<Rightarrow> jsval" where
  "noteMap_get note =
    (case map_of noteMap note of
       Some f \<Rightarrow> JNumber f
     | None \<Rightarrow>
        (case map_of Object_prototype note of
           Some v \<Rightarrow> v
         | None \<Rightarrow> JUndefined))"

text \<open>\<open>return noteMap[note] || 440\<close>\<close>

definition getFrequency :: "string \<Rightarrow> jsval" where
  "getFrequency note = js_or (noteMap_get note) (JNumber 440)"

section \<open>The audio engine (\<open>AudioPlayer\<close>, audioPlayer.ts)\<close>

subsection \<open>The Web Audio objects the engine drives\<close>

datatype AudioContextState = Suspended | Running | Closed

datatype gain_event =
    SetValueAtTime real real
  | ExponentialRampToValueAtTime real real

text \<open>
  One tone-producing unit: an oscillator connected to a gain node connected to the
  destination. A new oscillator is a 440 Hz sine that has not been started.
\<close>

record tone_unit =
  osc_frequency :: real
  osc_type :: string
  gain_events :: "gain_event list"
  osc_start :: "real option"
  osc_stop :: "real option"

definition new_unit :: tone_unit where
  "new_unit =
    \<lparr>osc_frequency = 440, osc_type = ''sine'', gain_events = [],
     osc_start = None, osc_stop = None\<rparr>"

text \<open>
  The audio context. Its clock belongs to the audio hardware and advances on its own,
  so every read of \<open>currentTime\<close> is a separate observation: \<open>clock c n\<close> is the value the
  \<open>n\<close>-th read returns and \<open>reads c\<close> counts the reads made so far. \<open>graph c\<close> lists the
  units connected to the destination, oldest first.
\<close>

record AudioContext =
  ctx_state :: AudioContextState
  clock :: "nat \<Rightarrow> real"
  reads :: nat
  graph :: "tone_unit list"

definition currentTime :: "AudioContext \<Rightarrow> real \<times> AudioContext" where
  "currentTime c = (clock c (reads c), c\<lparr>reads := Suc (reads c)\<rparr>)"

subsection \<open>The class\<close>

record AudioPlayer =
  audioContext :: "AudioContext option"
  isInitialized :: bool

text \<open>The field initialisers of the class.\<close>

definition new_AudioPlayer :: AudioPlayer where
  "new_AudioPlayer = \<lparr>audioContext = None, isInitialized = False\<rparr>"

text \<open>
  The global \<open>window\<close>, when there is one: each of the two constructors is either
  undefined (\<open>None\<close>) or, when called with \<open>new\<close>, throws or yields a fresh context.
\<close>

record window =
  AudioContext_ctor :: "(error + AudioContext) option"
  webkitAudioContext_ctor :: "(error + AudioContext) option"

text \<open>
  \<open>new (window.AudioContext || window.webkitAudioContext)()\<close>: calling \<open>new\<close> on
  \<open>undefined\<close> is a TypeError.
\<close>

definition construct :: "window \<Rightarrow> error + AudioContext" where
  "construct w =
    (case (case AudioContext_ctor w of Some k \<Rightarrow> Some k
                                     | None \<Rightarrow> webkitAudioContext_ctor w) of
       None \<Rightarrow> Inl TypeError
     | Some k \<Rightarrow> k)"

text \<open>
  \<open>initialize\<close> (lines 5-10). The argument \<open>win\<close> is \<open>None\<close> where
  \<open>typeof window\<close> is \<open>'undefined'\<close>. An exception of the constructor is thrown before
  either field is assigned.
\<close>

definition initialize :: "window option \<Rightarrow> AudioPlayer \<Rightarrow> AudioPlayer outcome" where
  "initialize win p =
    (if \<not> isInitialized p \<and> win \<noteq> None then
       (case win of
          None \<Rightarrow> Returned p
        | Some w \<Rightarrow>
           (case construct w of
              Inl e \<Rightarrow> Threw e p
            | Inr c \<Rightarrow> Returned (p\<lparr>audioContext := Some c, isInitialized := True\<rparr>)))
     else Returned p)"

text \<open>
  \<open>resume\<close> (lines 12-16). Whether the browser lets a suspended context run is its
  autoplay policy, the argument \<open>granted\<close>; when it does not, the context stays suspended.
\<close>

definition resume :: "bool \<Rightarrow> AudioPlayer \<Rightarrow> AudioPlayer" where
  "resume granted p =
    (case audioContext p of
       None \<Rightarrow> p
     | Some c \<Rightarrow>
        if ctx_state c = Suspended \<and> granted
        then p\<lparr>audioContext := Some (c\<lparr>ctx_state := Running\<rparr>)\<rparr>
        else p)"

text \<open>The state in which a call of \<open>playNote\<close> leaves the engine: context \<open>c\<close>, with unit \<open>u\<close> added.\<close>

definition with_unit :: "AudioPlayer \<Rightarrow> AudioContext \<Rightarrow> tone_unit \<Rightarrow> AudioPlayer" where
  "with_unit p c u = p\<lparr>audioContext := Some (c\<lparr>graph := graph c @ [u]\<rparr>)\<rparr>"

text \<open>
  \<open>playNote\<close> (lines 27-44), statement by statement. The two nodes are created and
  connected first. The Web Audio interface rejects a frequency that is not a finite number
  with a TypeError, and a negative time with a RangeError. \<open>currentTime\<close> is read four
  times, once in each of the four calls that take a time.
\<close>

definition playNote :: "AudioPlayer \<Rightarrow> jsval \<Rightarrow> real \<Rightarrow> AudioPlayer outcome" where
  "playNote p frequency duration =
    (case audioContext p of
       None \<Rightarrow> Returned p
     | Some c0 \<Rightarrow>
        (case frequency of
           JNumber f \<Rightarrow>
            let u1 = new_unit\<lparr>osc_frequency := f, osc_type := ''sine''\<rparr>;
                (t1, c1) = currentTime c0
            in if t1 < 0 then Threw RangeError (with_unit p c1 u1)
            else
              let u2 = u1\<lparr>gain_events := gain_events u1 @ [SetValueAtTime 0.3 t1]\<rparr>;
                  (t2, c2) = currentTime c1
              in if t2 + duration < 0 then Threw RangeError (with_unit p c2 u2)
              else
                let u3 = u2\<lparr>gain_events := gain_events u2 @
                               [ExponentialRampToValueAtTime 0.01 (t2 + duration)]\<rparr>;
                    (t3, c3) = currentTime c2
                in if t3 < 0 then Threw RangeError (with_unit p c3 u3)
                else
                  let u4 = u3\<lparr>osc_start := Some t3\<rparr>;
                      (t4, c4) = currentTime c3
                  in if t4 + duration < 0 then Threw RangeError (with_unit p c4 u4)
                  else Returned (with_unit p c4 (u4\<lparr>osc_stop := Some (t4 + duration)\<rparr>))
         | JUndefined \<Rightarrow> Threw TypeError (with_unit p c0 new_unit)
         | JFunction g \<Rightarrow> Threw TypeError (with_unit p c0 new_unit)
         | JObject ob \<Rightarrow> Threw TypeError (with_unit p c0 new_unit)))"

text \<open>\<open>keys.forEach(key => ...)\<close>: an exception ends the iteration.\<close>

fun forEach_key :: "string list \<Rightarrow> real \<Rightarrow> AudioPlayer \<Rightarrow> AudioPlayer outcome" where
  "forEach_key [] duration p = Returned p"
| "forEach_key (key # keys) duration p =
    (case playNote p (getFrequency key) duration of
       Returned p' \<Rightarrow> forEach_key keys duration p'
     | Threw e p' \<Rightarrow> Threw e p')"

text \<open>\<open>playChord\<close> (lines 18-25).\<close>

definition playChord :: "AudioPlayer \<Rightarrow> string list \<Rightarrow> real \<Rightarrow> AudioPlayer outcome" where
  "playChord p keys duration =
    (case audioContext p of
       None \<Rightarrow> Returned p
     | Some c \<Rightarrow> forEach_key keys duration p)"

subsection \<open>What a call leaves behind\<close>

fun returned :: "'s outcome \<Rightarrow> bool" where
  "returned (Returned s) = True"
| "returned (Threw e s) = False"

definition units_of :: "AudioPlayer \<Rightarrow> tone_unit list" where
  "units_of p = (case audioContext p of None \<Rightarrow> [] | Some c \<Rightarrow> graph c)"

text \<open>The units a call added to the graph: those of its outcome beyond those of \<open>p\<close>.\<close>

definition created :: "AudioPlayer \<Rightarrow> AudioPlayer outcome \<Rightarrow> tone_unit list" where
  "created p r = drop (length (units_of p)) (units_of (state_of r))"

text \<open>The next \<open>k\<close> reads of the clock of \<open>c\<close> all return \<open>t\<close>.\<close>

definition clock_stable :: "AudioContext \<Rightarrow> nat \<Rightarrow> real \<Rightarrow> bool" where
  "clock_stable c k t = (\<forall>n. reads c \<le> n \<and> n < reads c + k \<longrightarrow> clock c n = t)"

text \<open>A unit started at \<open>t\<close> and commanded to stop at \<open>t + d\<close>.\<close>

definition sounding :: "real \<Rightarrow> real \<Rightarrow> tone_unit \<Rightarrow> bool" where
  "sounding t d u = (osc_start u = Some t \<and> osc_stop u = Some (t + d))"

text \<open>
  A unit whose start, if it was started, is \<open>t\<close> and whose stop, if one was commanded, is
  \<open>t + d\<close>: what an interrupted \<open>playNote\<close> may leave.
\<close>

definition in_unison :: "real \<Rightarrow> real \<Rightarrow> tone_unit \<Rightarrow> bool" where
  "in_unison t d u =
    ((osc_start u = None \<or> osc_start u = Some t) \<and>
     (osc_stop u = None \<or> osc_stop u = Some (t + d)))"

text \<open>The class invariant: the flag is set exactly when there is a context.\<close>

definition flag_matches_context :: "AudioPlayer \<Rightarrow> bool" where
  "flag_matches_context p = (isInitialized p = (audioContext p \<noteq> None))"

section \<open>The scheduler (\<open>scheduleNotePlay\<close> and \<open>playAllNotes\<close>)\<close>

record Note =
  keys :: "string list"
  duration :: real

text \<open>
  The callbacks handed to the timer are closures; each is modelled by the calls its body
  makes, in the order of its statements. \<open>'f\<close> is the type of the caller's two callbacks
  and \<open>'p\<close> that of the engine the chord is played on.
\<close>

datatype ('f, 'p) call =
    OnNoteStart 'f nat
  | PlayChord 'p "string list" real
  | OnComplete 'f

type_synonym ('f, 'p) callback = "('f, 'p) call list"

text \<open>
  The helper \<open>scheduleAction(callback, milliseconds)\<close> and the constant \<open>BEAT_DURATION\<close>
  are used by the two functions but are not among the sources, so both are parameters:
  \<open>scheduleAction\<close> acts on a state \<open>'s\<close> of armed actions.

  In this section the arithmetic is exact, over the reals; it serves where a statement
  does not depend on rounding (which action is armed, in which order, with which
  arguments). The section on the program's arithmetic below has the two functions again
  with the rounded operations of JavaScript numbers.

  \<open>scheduleNotePlay\<close> (lines 44-59) arms one action and returns the next delay.
\<close>

definition scheduleNotePlay ::
  "(('f, 'p) callback \<Rightarrow> real \<Rightarrow> 's \<Rightarrow> 's) \<Rightarrow> real \<Rightarrow>
   Note \<Rightarrow> nat \<Rightarrow> real \<Rightarrow> 'p \<Rightarrow> 'f \<Rightarrow> 's \<Rightarrow> real \<times> 's" where
  "scheduleNotePlay scheduleAction BEAT_DURATION note index delay audioPlayer onNoteStart s =
    (delay + duration note * BEAT_DURATION,
     scheduleAction
       [OnNoteStart onNoteStart index,
        PlayChord audioPlayer (keys note) (duration note * BEAT_DURATION)]
       (delay * 1000) s)"

text \<open>
  \<open>notes.reduce((delay, note, index) => scheduleNotePlay(...), 0)\<close>: the loop of
  \<open>reduce\<close> from position \<open>index\<close> on, with the accumulator \<open>delay\<close>.
\<close>

fun reduce_notes ::
  "(('f, 'p) callback \<Rightarrow> real \<Rightarrow> 's \<Rightarrow> 's) \<Rightarrow> real \<Rightarrow>
   Note list \<Rightarrow> nat \<Rightarrow> real \<Rightarrow> 'p \<Rightarrow> 'f \<Rightarrow> 's \<Rightarrow> real \<times> 's" where
  "reduce_notes scheduleAction BEAT_DURATION [] index delay audioPlayer onNoteStart s =
    (delay, s)"
| "reduce_notes scheduleAction BEAT_DURATION (note # notes) index delay audioPlayer onNoteStart s =
    (case scheduleNotePlay scheduleAction BEAT_DURATION note index delay audioPlayer onNoteStart s of
       (delay', s') \<Rightarrow>
         reduce_notes scheduleAction BEAT_DURATION notes (Suc index) delay' audioPlayer onNoteStart s')"

text \<open>\<open>playAllNotes\<close> (lines 65-80).\<close>

definition playAllNotes ::
  "(('f, 'p) callback \<Rightarrow> real \<Rightarrow> 's \<Rightarrow> 's) \<Rightarrow> real \<Rightarrow>
   Note list \<Rightarrow> 'p \<Rightarrow> 'f \<Rightarrow> 'f \<Rightarrow> 's \<Rightarrow> 's" where
  "playAllNotes scheduleAction BEAT_DURATION notes audioPlayer onNoteStart onComplete s =
    (case reduce_notes scheduleAction BEAT_DURATION notes 0 0 audioPlayer onNoteStart s of
       (totalDelay, s') \<Rightarrow> scheduleAction [OnComplete onComplete] (totalDelay * 1000) s')"

text \<open>
  The instance of the parameter that only writes down each call of \<open>scheduleAction\<close>,
  its callback and its milliseconds, in call order.
\<close>

definition record_action ::
  "('f, 'p) callback \<Rightarrow> real \<Rightarrow> (('f, 'p) callback \<times> real) list \<Rightarrow>
   (('f, 'p) callback \<times> real) list" where
  "record_action cb ms calls = calls @ [(cb, ms)]"



section \<open>The scheduler in the program's arithmetic\<close>

subsection \<open>JavaScript numbers\<close>

text \<open>Rounding to the nearest integer, a tie to the even one.\<close>

definition round_half_even :: "real \<Rightarrow> int" where
  "round_half_even r =
    (let f = \<lfloor>r\<rfloor>; d = r - of_int f
     in if d < 1/2 then f
        else if 1/2 < d then f + 1
        else if even f then f else f + 1)"

text \<open>
  A double has 53 significant bits and an exponent between -1074, for the subnormal
  numbers, and 971: around a real of magnitude \<open>a\<close> the doubles are the multiples of
  \<open>2 powi grid a\<close>, where \<open>grid a\<close> is the \<open>q\<close> with \<open>2 powi (q + 52) \<le> a < 2 powi (q + 53)\<close>,
  kept within these bounds. The two searches find it, upwards and downwards from 0.
\<close>

function grid_up :: "int \<Rightarrow> real \<Rightarrow> int" where
  "grid_up q a = (if q < 971 \<and> 2 powi (q + 53) \<le> a then grid_up (q + 1) a else q)"
  by pat_completeness auto
termination
  by (relation "measure (\<lambda>(q, a). nat (971 - q))") auto

function grid_down :: "int \<Rightarrow> real \<Rightarrow> int" where
  "grid_down q a = (if - 1074 < q \<and> a < 2 powi (q + 52) then grid_down (q - 1) a else q)"
  by pat_completeness auto
termination
  by (relation "measure (\<lambda>(q, a). nat (q + 1074))") auto

definition grid :: "real \<Rightarrow> int" where
  "grid a = (if 2 powi 53 \<le> a then grid_up 1 a else grid_down 0 a)"

text \<open>The double nearest to a real, while the exponent is in range.\<close>

definition round_to_double :: "real \<Rightarrow> real" where
  "round_to_double x =
    (if x = 0 then 0
     else of_int (round_half_even (x / 2 powi grid \<bar>x\<bar>)) * 2 powi grid \<bar>x\<bar>)"

text \<open>
  A JavaScript number: not-a-number, an infinity, or a finite double, given by the real
  it denotes (the two zeros are one).
\<close>

datatype jsnum = NaN | NegInfinity | Finite real | Infinity

text \<open>
  The number that an exact result becomes: the nearest double, or an infinity when that
  lies beyond the largest double (it rounds to \<open>2 powi 1024\<close> or more). It is also the
  value of a decimal literal.
\<close>

definition js_round :: "real \<Rightarrow> jsnum" where
  "js_round x =
    (let y = round_to_double x
     in if 2 powi 1024 \<le> y then Infinity
        else if y \<le> - (2 powi 1024) then NegInfinity
        else Finite y)"

text \<open>The operators \<open>+\<close>, \<open>*\<close> and \<open><=\<close> on numbers.\<close>

fun js_add :: "jsnum \<Rightarrow> jsnum \<Rightarrow> jsnum" where
  "js_add NaN y = NaN"
| "js_add x NaN = NaN"
| "js_add Infinity NegInfinity = NaN"
| "js_add NegInfinity Infinity = NaN"
| "js_add Infinity y = Infinity"
| "js_add x Infinity = Infinity"
| "js_add NegInfinity y = NegInfinity"
| "js_add x NegInfinity = NegInfinity"
| "js_add (Finite a) (Finite b) = js_round (a + b)"

fun js_sign :: "jsnum \<Rightarrow> real" where
  "js_sign NaN = 0"
| "js_sign NegInfinity = - 1"
| "js_sign Infinity = 1"
| "js_sign (Finite a) = sgn a"

fun js_mul :: "jsnum \<Rightarrow> jsnum \<Rightarrow> jsnum" where
  "js_mul NaN y = NaN"
| "js_mul x NaN = NaN"
| "js_mul (Finite a) (Finite b) = js_round (a * b)"
| "js_mul x y =
    (if js_sign x * js_sign y = 0 then NaN
     else if 0 < js_sign x * js_sign y then Infinity
     else NegInfinity)"

fun js_le :: "jsnum \<Rightarrow> jsnum \<Rightarrow> bool" where
  "js_le NaN y = False"
| "js_le x NaN = False"
| "js_le NegInfinity y = True"
| "js_le x Infinity = True"
| "js_le (Finite a) (Finite b) = (a \<le> b)"
| "js_le x y = False"

text \<open>A number that is not negative: a double from 0 on, or the positive infinity.\<close>

fun nonneg_double :: "jsnum \<Rightarrow> bool" where
  "nonneg_double (Finite a) = (0 \<le> a \<and> a < 2 powi 1024 \<and> round_to_double a = a)"
| "nonneg_double Infinity = True"
| "nonneg_double x = False"

subsection \<open>The two functions over numbers\<close>

text \<open>
  \<open>scheduleNotePlay\<close> and \<open>playAllNotes\<close> once more, statement by statement as above,
  with the operations of numbers in place of the exact ones: the note's duration, the
  beat duration, the delays and the argument of \<open>playChord\<close> are numbers.
\<close>

record Note_js =
  keys_js :: "string list"
  duration_js :: jsnum

datatype ('f, 'p) call_js =
    OnNoteStart_js 'f nat
  | PlayChord_js 'p "string list" jsnum
  | OnComplete_js 'f

definition scheduleNotePlay_js ::
  "(('f, 'p) call_js list \<Rightarrow> jsnum \<Rightarrow> 's \<Rightarrow> 's) \<Rightarrow> jsnum \<Rightarrow>
   Note_js \<Rightarrow> nat \<Rightarrow> jsnum \<Rightarrow> 'p \<Rightarrow> 'f \<Rightarrow> 's \<Rightarrow> jsnum \<times> 's" where
  "scheduleNotePlay_js scheduleAction BEAT_DURATION note index delay audioPlayer onNoteStart s =
    (js_add delay (js_mul (duration_js note) BEAT_DURATION),
     scheduleAction
       [OnNoteStart_js onNoteStart index,
        PlayChord_js audioPlayer (keys_js note) (js_mul (duration_js note) BEAT_DURATION)]
       (js_mul delay (Finite 1000)) s)"

fun reduce_notes_js ::
  "(('f, 'p) call_js list \<Rightarrow> jsnum \<Rightarrow> 's \<Rightarrow> 's) \<Rightarrow> jsnum \<Rightarrow>
   Note_js list \<Rightarrow> nat \<Rightarrow> jsnum \<Rightarrow> 'p \<Rightarrow> 'f \<Rightarrow> 's \<Rightarrow> jsnum \<times> 's" where
  "reduce_notes_js scheduleAction BEAT_DURATION [] index delay audioPlayer onNoteStart s =
    (delay, s)"
| "reduce_notes_js scheduleAction BEAT_DURATION (note # notes) index delay audioPlayer onNoteStart s =
    (case scheduleNotePlay_js scheduleAction BEAT_DURATION note index delay audioPlayer onNoteStart s of
       (delay', s') \<Rightarrow>
         reduce_notes_js scheduleAction BEAT_DURATION notes (Suc index) delay' audioPlayer onNoteStart s')"

definition playAllNotes_js ::
  "(('f, 'p) call_js list \<Rightarrow> jsnum \<Rightarrow> 's \<Rightarrow> 's) \<Rightarrow> jsnum \<Rightarrow>
   Note_js list \<Rightarrow> 'p \<Rightarrow> 'f \<Rightarrow> 'f \<Rightarrow> 's \<Rightarrow> 's" where
  "playAllNotes_js scheduleAction BEAT_DURATION notes audioPlayer onNoteStart onComplete s =
    (case reduce_notes_js scheduleAction BEAT_DURATION notes 0 (Finite 0) audioPlayer onNoteStart s of
       (totalDelay, s') \<Rightarrow>
         scheduleAction [OnComplete_js onComplete] (js_mul totalDelay (Finite 1000)) s')"

definition record_action_js ::
  "('f, 'p) call_js list \<Rightarrow> jsnum \<Rightarrow> (('f, 'p) call_js list \<times> jsnum) list \<Rightarrow>
   (('f, 'p) call_js list \<times> jsnum) list" where
  "record_action_js cb ms calls = calls @ [(cb, ms)]"

text \<open>
  The offsets in the words of the specification's data model, from a first offset \<open>t\<close>:
  "offset[i+1] = offset[i] + duration_seconds[i]", one offset for each note and a last one
  for the completion, every sum and product being one of numbers.
\<close>

fun offsets_from :: "jsnum \<Rightarrow> jsnum \<Rightarrow> Note_js list \<Rightarrow> jsnum list" where
  "offsets_from BEAT_DURATION t [] = [t]"
| "offsets_from BEAT_DURATION t (note # notes) =
    t # offsets_from BEAT_DURATION (js_add t (js_mul (duration_js note) BEAT_DURATION)) notes"

section \<open>A timer for the scheduler\<close>

text \<open>
  The pending one-shot actions of the host's timer, each with the time at which it is
  due, in the order in which they were armed, and the current time, in milliseconds.
\<close>

record ('f, 'p) timers =
  now_ms :: real
  pending :: "(real \<times> ('f, 'p) callback) list"

text \<open>
  Modelled from the spec: \<open>scheduleAction\<close> is called by \<open>scheduleNotePlay\<close> and
  \<open>playAllNotes\<close> but its definition is not among the sources, and neither is the code
  that starts or stops a run. The specification makes the scheduling primitive a
  cancellable group of one-shot timers (9): \<open>scheduleAction\<close> is its arming, "a one-shot
  timed action at offset seconds from now" (4.1); \<open>cancelAll\<close> and \<open>startRun\<close> below are
  its cancellation.
\<close>

definition scheduleAction ::
  "('f, 'p) callback \<Rightarrow> real \<Rightarrow> ('f, 'p) timers \<Rightarrow> ('f, 'p) timers" where
  "scheduleAction cb ms tm = tm\<lparr>pending := pending tm @ [(now_ms tm + ms, cb)]\<rparr>"

text \<open>
  Modelled from the spec: the host event loop (5) fires the due actions one at a time,
  ordered by their due time, those due at the same time in the order they were armed.
  \<open>run_until t tm\<close> is the loop up to time \<open>t\<close>: the calls made, in order, and the timer left.
\<close>

definition run_until ::
  "real \<Rightarrow> ('f, 'p) timers \<Rightarrow> ('f, 'p) call list \<times> ('f, 'p) timers" where
  "run_until t tm =
    (concat (map snd (sort_key fst (filter (\<lambda>a. fst a \<le> t) (pending tm)))),
     tm\<lparr>now_ms := t, pending := filter (\<lambda>a. \<not> fst a \<le> t) (pending tm)\<rparr>)"




section \<open>Example values\<close>

text \<open>An initialized engine over a running context whose clock is \<open>k\<close>.\<close>

definition context_with_clock :: "(nat \<Rightarrow> real) \<Rightarrow> AudioContext" where
  "context_with_clock k = \<lparr>ctx_state = Running, clock = k, reads = 0, graph = []\<rparr>"

definition engine_with_clock :: "(nat \<Rightarrow> real) \<Rightarrow> AudioPlayer" where
  "engine_with_clock k =
    \<lparr>audioContext = Some (context_with_clock k), isInitialized = True\<rparr>"

text \<open>
  A clock that advances once, by 3 ms (about one block of 128 sample frames at 44.1 kHz),
  after its first four reads.
\<close>

definition ticking_clock :: "nat \<Rightarrow> real" where
  "ticking_clock n = (if n < 4 then 0 else 0.003)"

text \<open>The same clock, advancing after its first three reads.\<close>

definition early_ticking_clock :: "nat \<Rightarrow> real" where
  "early_ticking_clock n = (if n < 3 then 0 else 0.003)"

text \<open>A browser window whose \<open>AudioContext\<close> constructor yields a context with clock \<open>k\<close>.\<close>

definition browser_window :: "(nat \<Rightarrow> real) \<Rightarrow> window" where
  "browser_window k =
    \<lparr>AudioContext_ctor = Some (Inr (context_with_clock k)), webkitAudioContext_ctor = None\<rparr>"


definition c_major :: "string list" where
  "c_major = [''c/4'', ''e/4'', ''g/4'']"

definition idle_timers :: "(string, string) timers" where
  "idle_timers = \<lparr>now_ms = 0, pending = []\<rparr>"


text \<open>Two notes of 0.1 and 0.7 beats, as the literals \<open>0.1\<close> and \<open>0.7\<close> denote them.\<close>

definition two_notes_js :: "Note_js list" where
  "two_notes_js =
    [\<lparr>keys_js = [''c/4''], duration_js = js_round 0.1\<rparr>,
     \<lparr>keys_js = [''d/4''], duration_js = js_round 0.7\<rparr>]"

declare grid_up.simps [simp del] grid_down.simps [simp del]

section \<open>Properties of the audio engine\<close>

subsection \<open>Pitch lookup\<close>

lemma getFrequency_in_table:
  "map_of noteMap name = Some f \<Longrightarrow> getFrequency name = JNumber f"
  by (simp add: getFrequency_def noteMap_get_def js_or_def)
     (auto simp: noteMap_def split: if_splits)

lemma getFrequency_default:
  "map_of noteMap name = None \<Longrightarrow> map_of Object_prototype name = None \<Longrightarrow>
   getFrequency name = JNumber 440"
  by (simp add: getFrequency_def noteMap_get_def js_or_def)

text \<open>
  Claim C7. The claim: a pitch name that is not in the table resolves to 440 Hz. The
  name \<open>constructor\<close> is not in the table, and the lookup returns the function that
  \<open>noteMap\<close> inherits under that name instead of the default, since a function is truthy.
\<close>

theorem getFrequency_inherited_name:
  "map_of noteMap ''constructor'' = None \<and>
   getFrequency ''constructor'' = JFunction ''Object''"
  by (simp add: getFrequency_def noteMap_get_def noteMap_def Object_prototype_def js_or_def)

theorem getFrequency_inherited_name_witness:
  "getFrequency ''constructor'' \<noteq> JNumber 440"
  using getFrequency_inherited_name by simp

subsection \<open>Fields that playing leaves alone\<close>

lemma playNote_fields:
  "isInitialized (state_of (playNote p fr d)) = isInitialized p \<and>
   (audioContext (state_of (playNote p fr d)) = None) = (audioContext p = None)"
proof (cases "audioContext p")
  case None
  then show ?thesis by (simp add: playNote_def)
next
  case (Some c)
  then show ?thesis
    by (cases fr) (simp_all add: playNote_def currentTime_def with_unit_def Let_def)
qed

lemma forEach_key_fields:
  "isInitialized (state_of (forEach_key ks d p)) = isInitialized p \<and>
   (audioContext (state_of (forEach_key ks d p)) = None) = (audioContext p = None)"
proof (induction ks arbitrary: p)
  case Nil
  show ?case by simp
next
  case (Cons k ks)
  show ?case
  proof (cases "playNote p (getFrequency k) d")
    case (Returned p1)
    then show ?thesis
      using playNote_fields [of p "getFrequency k" d] Cons.IH [of p1] by simp
  next
    case (Threw e p1)
    then show ?thesis
      using playNote_fields [of p "getFrequency k" d] by simp
  qed
qed

subsection \<open>One note under a clock that stands still\<close>

lemma playNote_stable:
  assumes ctx: "audioContext p = Some c"
      and st: "clock_stable c 4 t"
  shows "\<exists>c' u. audioContext (state_of (playNote p fr d)) = Some c'
           \<and> graph c' = graph c @ [u] \<and> clock c' = clock c
           \<and> reads c \<le> reads c' \<and> reads c' \<le> reads c + 4
           \<and> in_unison t d u
           \<and> (returned (playNote p fr d) \<longrightarrow> reads c' = reads c + 4 \<and> sounding t d u)"
proof -
  have r0: "clock c (reads c) = t" using st by (simp add: clock_stable_def)
  have r1: "clock c (Suc (reads c)) = t" using st by (simp add: clock_stable_def)
  have r2: "clock c (Suc (Suc (reads c))) = t" using st by (simp add: clock_stable_def)
  have r3: "clock c (Suc (Suc (Suc (reads c)))) = t" using st by (simp add: clock_stable_def)
  show ?thesis
  proof (cases fr)
    case (JNumber f)
    then show ?thesis
      using ctx r0 r1 r2 r3
      by (simp add: playNote_def currentTime_def with_unit_def new_unit_def
                    in_unison_def sounding_def Let_def)
  qed (simp_all add: ctx playNote_def with_unit_def new_unit_def in_unison_def)
qed

lemma forEach_key_stable:
  assumes "audioContext p = Some c"
      and "clock_stable c (4 * length ks) t"
  shows "\<exists>c' new. audioContext (state_of (forEach_key ks d p)) = Some c'
           \<and> graph c' = graph c @ new
           \<and> (\<forall>u\<in>set new. in_unison t d u)
           \<and> (returned (forEach_key ks d p) \<longrightarrow>
                length new = length ks \<and> (\<forall>u\<in>set new. sounding t d u))"
  using assms
proof (induction ks arbitrary: p c)
  case Nil
  then show ?case by simp
next
  case (Cons k ks)
  have st4: "clock_stable c 4 t"
    using Cons.prems(2) by (simp add: clock_stable_def)
  obtain c1 u where
    c1: "audioContext (state_of (playNote p (getFrequency k) d)) = Some c1"
    and g1: "graph c1 = graph c @ [u]"
    and k1: "clock c1 = clock c"
    and un: "in_unison t d u"
    and ret: "returned (playNote p (getFrequency k) d) \<longrightarrow>
                reads c1 = reads c + 4 \<and> sounding t d u"
    using playNote_stable [OF Cons.prems(1) st4, of "getFrequency k" d] by blast
  show ?case
  proof (cases "playNote p (getFrequency k) d")
    case (Threw e p1)
    then show ?thesis using c1 g1 un by auto
  next
    case (Returned p1)
    then have p1: "audioContext p1 = Some c1" using c1 by simp
    have rd: "reads c1 = reads c + 4" and so: "sounding t d u"
      using ret Returned by simp_all
    have st1: "clock_stable c1 (4 * length ks) t"
      using Cons.prems(2) k1 rd by (simp add: clock_stable_def)
    obtain c2 new where
      c2: "audioContext (state_of (forEach_key ks d p1)) = Some c2"
      and g2: "graph c2 = graph c1 @ new"
      and un2: "\<forall>v\<in>set new. in_unison t d v"
      and ret2: "returned (forEach_key ks d p1) \<longrightarrow>
                  length new = length ks \<and> (\<forall>v\<in>set new. sounding t d v)"
      using Cons.IH [OF p1 st1] by blast
    have "graph c2 = graph c @ (u # new)" using g1 g2 by simp
    moreover have "\<forall>v\<in>set (u # new). in_unison t d v" using un un2 by simp
    moreover have "returned (forEach_key ks d p1) \<longrightarrow>
        length (u # new) = length (k # ks) \<and> (\<forall>v\<in>set (u # new). sounding t d v)"
      using ret2 so by simp
    ultimately show ?thesis using Returned c2 by (simp del: set_simps)
  qed
qed

subsection \<open>Chords\<close>

text \<open>
  When every read of the clock made during a call of \<open>playChord\<close> (four for each key)
  returns the same instant \<open>t\<close>, the call only adds units, every unit it started was
  started at \<open>t\<close> and every stop it commanded is at \<open>t + duration\<close>; and when the call
  returns it has added one unit for each key, started at \<open>t\<close> and stopping at
  \<open>t + duration\<close>.
\<close>

lemma playChord_unison_when_clock_stands_still:
  assumes "audioContext p = Some c"
      and "clock_stable c (4 * length ks) t"
  shows "units_of (state_of (playChord p ks d)) = units_of p @ created p (playChord p ks d)
       \<and> (\<forall>u\<in>set (created p (playChord p ks d)). in_unison t d u)
       \<and> (returned (playChord p ks d) \<longrightarrow>
            length (created p (playChord p ks d)) = length ks
          \<and> (\<forall>u\<in>set (created p (playChord p ks d)). sounding t d u))"
proof -
  have pc: "playChord p ks d = forEach_key ks d p"
    using assms(1) by (simp add: playChord_def)
  obtain c' new where
    c': "audioContext (state_of (forEach_key ks d p)) = Some c'"
    and g: "graph c' = graph c @ new"
    and un: "\<forall>u\<in>set new. in_unison t d u"
    and ret: "returned (forEach_key ks d p) \<longrightarrow>
                length new = length ks \<and> (\<forall>u\<in>set new. sounding t d u)"
    using forEach_key_stable [OF assms] by blast
  have cr: "created p (forEach_key ks d p) = new"
    using assms(1) c' g by (simp add: created_def units_of_def)
  have "units_of (state_of (forEach_key ks d p)) = units_of p @ new"
    using assms(1) c' g by (simp add: units_of_def)
  then show ?thesis using pc cr un ret by simp
qed

text \<open>
  Claim C2: within one call of \<open>playChord\<close> all tones start at one instant of the
  timeline, read once for the call, and each stops \<open>durationSeconds\<close> after that instant.
  The repository's article shows the method taking \<open>const now = this.audioContext.currentTime\<close>
  and using it in all four timed calls of a tone, and says that all tones refer to the same
  \<open>currentTime\<close>. The class reads the clock anew in each of the four calls, for every
  key, so the code does not do what the claim says when the clock advances during the
  call. With an advance between the two keys of a chord the tones start at 0 and at 0.003
  and the second stops at 1.003; with an advance before the last read of a single tone, the
  tone starts at 0 and stops at 1.003, not one second after its start.
\<close>

theorem playChord_rereads_clock:
  "map osc_start (created (engine_with_clock ticking_clock)
        (playChord (engine_with_clock ticking_clock) [''c/4'', ''e/4''] 1))
     = [Some 0, Some 0.003] \<and>
   map osc_stop (created (engine_with_clock ticking_clock)
        (playChord (engine_with_clock ticking_clock) [''c/4'', ''e/4''] 1))
     = [Some 1, Some 1.003] \<and>
   map osc_start (created (engine_with_clock early_ticking_clock)
        (playChord (engine_with_clock early_ticking_clock) [''c/4''] 1))
     = [Some 0] \<and>
   map osc_stop (created (engine_with_clock early_ticking_clock)
        (playChord (engine_with_clock early_ticking_clock) [''c/4''] 1))
     = [Some 1.003]"
  by (simp add: created_def units_of_def engine_with_clock_def context_with_clock_def
                ticking_clock_def early_ticking_clock_def playChord_def playNote_def
                getFrequency_def noteMap_get_def noteMap_def js_or_def currentTime_def
                with_unit_def new_unit_def)

theorem playChord_rereads_clock_witness:
  "map osc_start (created (engine_with_clock ticking_clock)
        (playChord (engine_with_clock ticking_clock) [''c/4'', ''e/4''] 1))
     \<noteq> [Some 0, Some 0]"
  using playChord_rereads_clock by simp

text \<open>
  Claim C4: when the engine is not initialized (it has no audio context), \<open>playChord\<close>
  returns without an exception, whatever the keys and the duration, adds no unit and
  leaves the engine as it was.
\<close>

theorem playChord_uninitialized:
  "audioContext p = None \<Longrightarrow>
   playChord p ks d = Returned p \<and> created p (playChord p ks d) = []"
  by (simp add: playChord_def created_def)

theorem playChord_uninitialized_witness:
  "audioContext new_AudioPlayer = None \<and>
   playChord new_AudioPlayer c_major 1 = Returned new_AudioPlayer \<and>
   created new_AudioPlayer (playChord new_AudioPlayer c_major 1) = []"
proof -
  have h: "audioContext new_AudioPlayer = None"
    by (simp add: new_AudioPlayer_def)
  show ?thesis
    using h playChord_uninitialized [OF h, of c_major 1] by (simp add: created_def)
qed

text \<open>
  Claim C10: on an initialized engine, \<open>playChord\<close> with no keys returns without an
  exception, adds no unit and leaves the engine as it was, whatever the duration.
\<close>

theorem playChord_no_keys:
  "audioContext p = Some c \<Longrightarrow>
   playChord p [] d = Returned p \<and> created p (playChord p [] d) = []"
  by (simp add: playChord_def created_def)

theorem playChord_no_keys_witness:
  "audioContext (engine_with_clock real) = Some (context_with_clock real) \<and>
   playChord (engine_with_clock real) [] 1 = Returned (engine_with_clock real) \<and>
   created (engine_with_clock real) (playChord (engine_with_clock real) [] 1) = []"
proof -
  have h: "audioContext (engine_with_clock real) = Some (context_with_clock real)"
    by (simp add: engine_with_clock_def)
  show ?thesis
    using h playChord_no_keys [OF h, of 1] by (simp add: created_def)
qed

subsection \<open>Initialization\<close>

text \<open>
  Claim C8: once a call of \<open>initialize\<close> has succeeded, leaving the engine initialized,
  every further call returns without an exception and leaves the engine as it is, context
  included, in whatever environment it is made: no constructor is called again.
\<close>

theorem initialize_idempotent:
  assumes "initialize win p = Returned p1"
      and "isInitialized p1"
  shows "initialize win' p1 = Returned p1"
  using assms(2) by (simp add: initialize_def)

theorem initialize_idempotent_witness:
  "initialize (Some (browser_window real)) new_AudioPlayer = Returned (engine_with_clock real) \<and>
   isInitialized (engine_with_clock real) \<and>
   initialize (Some (browser_window (\<lambda>n. 0))) (engine_with_clock real)
     = Returned (engine_with_clock real)"
proof -
  have first: "initialize (Some (browser_window real)) new_AudioPlayer
                 = Returned (engine_with_clock real)"
    by (simp add: initialize_def construct_def browser_window_def new_AudioPlayer_def
                  engine_with_clock_def)
  have flag: "isInitialized (engine_with_clock real)"
    by (simp add: engine_with_clock_def)
  show ?thesis
    using first flag initialize_idempotent [OF first flag, of "Some (browser_window (\<lambda>n. 0))"]
    by simp
qed

text \<open>
  Claim C9: the flag \<open>isInitialized\<close> is set exactly when the audio context is not
  null. This holds of a new engine, and \<open>initialize\<close>, \<open>resume\<close> and \<open>playChord\<close> each
  preserve it, whether they return or throw.
\<close>

theorem flag_matches_context_invariant:
  "flag_matches_context new_AudioPlayer \<and>
   (flag_matches_context p \<longrightarrow>
      flag_matches_context (state_of (initialize win p)) \<and>
      flag_matches_context (resume granted p) \<and>
      flag_matches_context (state_of (playChord p ks d)))"
proof -
  have init: "flag_matches_context new_AudioPlayer"
    by (simp add: flag_matches_context_def new_AudioPlayer_def)
  have "flag_matches_context (state_of (initialize win p))" if "flag_matches_context p"
    using that
    by (auto simp: flag_matches_context_def initialize_def split: option.splits sum.splits)
  moreover have "flag_matches_context (resume granted p)" if "flag_matches_context p"
    using that
    by (auto simp: flag_matches_context_def resume_def split: option.splits)
  moreover have "flag_matches_context (state_of (playChord p ks d))" if "flag_matches_context p"
  proof (cases "audioContext p")
    case None
    then show ?thesis using that by (simp add: playChord_def)
  next
    case (Some c)
    then have "playChord p ks d = forEach_key ks d p" by (simp add: playChord_def)
    then show ?thesis
      using that forEach_key_fields [of ks d p] by (simp add: flag_matches_context_def)
  qed
  ultimately show ?thesis using init by blast
qed

theorem flag_matches_context_invariant_witness:
  "flag_matches_context new_AudioPlayer \<and>
   flag_matches_context (state_of (initialize (Some (browser_window real)) new_AudioPlayer)) \<and>
   flag_matches_context (resume True new_AudioPlayer) \<and>
   flag_matches_context (state_of (playChord new_AudioPlayer c_major 1))"
  using flag_matches_context_invariant
          [of new_AudioPlayer "Some (browser_window real)" True c_major 1]
  by simp

section \<open>Properties of the scheduler\<close>

subsection \<open>The calls of \<open>scheduleAction\<close> that a run makes\<close>






subsection \<open>The action of one note\<close>



subsection \<open>The empty sequence\<close>

text \<open>
  Claim C5: on the empty note sequence a run makes exactly one call of \<open>scheduleAction\<close>,
  whatever that helper is: the completion callback, with a delay of 0. No action that
  calls \<open>onNoteStart\<close> or \<open>playChord\<close> is armed.
\<close>

theorem playAllNotes_empty:
  "playAllNotes sa B [] ap ons onc s = sa [OnComplete onc] 0 s"
  by (simp add: playAllNotes_def)

theorem playAllNotes_empty_witness:
  "playAllNotes record_action 1 [] ''engine'' ''onNoteStart'' ''onComplete'' []
     = [([OnComplete ''onComplete''], 0)] \<and>
   fst (run_until 0
     (playAllNotes scheduleAction 1 [] ''engine'' ''onNoteStart'' ''onComplete'' idle_timers))
     = [OnComplete ''onComplete'']"
  using playAllNotes_empty [of record_action 1 "''engine''" "''onNoteStart''" "''onComplete''" "[]"]
        playAllNotes_empty [of scheduleAction 1 "''engine''" "''onNoteStart''" "''onComplete''"
                               idle_timers]
  by (simp add: record_action_def scheduleAction_def run_until_def idle_timers_def)

subsection \<open>Overlapping runs\<close>





section \<open>Properties of the scheduler in the program's arithmetic\<close>

subsection \<open>Rounding\<close>

lemma round_half_even_of_int: "round_half_even (of_int n) = n"
  by (simp add: round_half_even_def)

lemma round_half_even_cases:
  "round_half_even r = \<lfloor>r\<rfloor> \<or> round_half_even r = \<lfloor>r\<rfloor> + 1"
  by (simp add: round_half_even_def Let_def)

lemma round_half_even_mono:
  assumes "r \<le> s"
  shows "round_half_even r \<le> round_half_even s"
proof (cases "\<lfloor>r\<rfloor> = \<lfloor>s\<rfloor>")
  case True
  then show ?thesis
    using assms by (auto simp: round_half_even_def Let_def)
next
  case False
  then have "\<lfloor>r\<rfloor> + 1 \<le> \<lfloor>s\<rfloor>"
    using floor_mono [OF assms] by linarith
  moreover have "round_half_even r \<le> \<lfloor>r\<rfloor> + 1"
    using round_half_even_cases [of r] by linarith
  moreover have "\<lfloor>s\<rfloor> \<le> round_half_even s"
    using round_half_even_cases [of s] by linarith
  ultimately show ?thesis by linarith
qed

lemma round_half_even_minus: "round_half_even (- r) = - round_half_even r"
proof (cases "r = of_int \<lfloor>r\<rfloor>")
  case True
  then obtain n where "r = of_int n" ..
  then have "- r = of_int (- n)" by simp
  then show ?thesis
    using \<open>r = of_int n\<close> by (simp only: round_half_even_of_int)
next
  case False
  then have fl: "\<lfloor>- r\<rfloor> = - \<lfloor>r\<rfloor> - 1"
    using False by (simp add: floor_minus ceiling_altdef)
  show ?thesis
    unfolding round_half_even_def Let_def fl
    by (auto simp: algebra_simps)
qed

lemma grid_up_spec:
  "q \<le> 971 \<Longrightarrow> 2 powi (q + 52) \<le> a \<Longrightarrow>
   q \<le> grid_up q a \<and> grid_up q a \<le> 971 \<and> 2 powi (grid_up q a + 52) \<le> a \<and>
   (grid_up q a < 971 \<longrightarrow> a < 2 powi (grid_up q a + 53))"
proof (induction q a rule: grid_up.induct)
  case (1 q a)
  show ?case
  proof (cases "q < 971 \<and> 2 powi (q + 53) \<le> a")
    case True
    have "q + 1 + 52 = q + 53" by simp
    then have "2 powi (q + 1 + 52) \<le> a" using True by (simp only:)
    moreover have eq: "grid_up q a = grid_up (q + 1) a"
      using True by (subst grid_up.simps) simp
    ultimately show ?thesis
      using "1.IH" [OF True] True unfolding eq by auto
  next
    case False
    then have "grid_up q a = q"
      by (subst grid_up.simps) auto
    then show ?thesis
      using "1.prems" False by auto
  qed
qed

lemma grid_down_spec:
  "- 1074 \<le> q \<Longrightarrow> a < 2 powi (q + 53) \<Longrightarrow>
   - 1074 \<le> grid_down q a \<and> grid_down q a \<le> q \<and> a < 2 powi (grid_down q a + 53) \<and>
   (- 1074 < grid_down q a \<longrightarrow> 2 powi (grid_down q a + 52) \<le> a)"
proof (induction q a rule: grid_down.induct)
  case (1 q a)
  show ?case
  proof (cases "- 1074 < q \<and> a < 2 powi (q + 52)")
    case True
    have "q - 1 + 53 = q + 52" by simp
    then have "a < 2 powi (q - 1 + 53)" using True by (simp only:)
    moreover have eq: "grid_down q a = grid_down (q - 1) a"
      using True by (subst grid_down.simps) simp
    ultimately show ?thesis
      using "1.IH" [OF True] True unfolding eq by auto
  next
    case False
    then have "grid_down q a = q"
      by (subst grid_down.simps) auto
    then show ?thesis
      using "1.prems" False by auto
  qed
qed

lemma grid_spec:
  "- 1074 \<le> grid a \<and> grid a \<le> 971 \<and>
   (- 1074 < grid a \<longrightarrow> 2 powi (grid a + 52) \<le> a) \<and>
   (grid a < 971 \<longrightarrow> a < 2 powi (grid a + 53))"
proof (cases "(2::real) powi 53 \<le> a")
  case True
  then have "2 powi (1 + 52) \<le> a" by simp
  then show ?thesis
    using grid_up_spec [of 1 a] True by (simp add: grid_def)
next
  case False
  then have "a < 2 powi (0 + 53)" by simp
  then show ?thesis
    using grid_down_spec [of 0 a] False by (simp add: grid_def)
qed

lemma grid_unique:
  assumes "- 1074 \<le> q" "q \<le> 971"
      and "- 1074 < q \<longrightarrow> 2 powi (q + 52) \<le> a"
      and "q < 971 \<longrightarrow> a < 2 powi (q + 53)"
  shows "grid a = q"
proof (rule ccontr)
  assume ne: "grid a \<noteq> q"
  note g = grid_spec [of a]
  show False
  proof (cases "grid a < q")
    case True
    then have "a < 2 powi (grid a + 53)" "2 powi (q + 52) \<le> a"
      using g assms by auto
    moreover have "(2::real) powi (grid a + 53) \<le> 2 powi (q + 52)"
      using True by (intro power_int_increasing) auto
    ultimately show False by linarith
  next
    case False
    then have lt: "q < grid a" using ne by simp
    then have "a < 2 powi (q + 53)" "2 powi (grid a + 52) \<le> a"
      using g assms by auto
    moreover have "(2::real) powi (q + 53) \<le> 2 powi (grid a + 52)"
      using lt by (intro power_int_increasing) auto
    ultimately show False by linarith
  qed
qed


lemma two_powi_pos [simp]: "0 < (2::real) powi q"
  by (simp add: zero_less_power_int)

lemma two_powi_split: "(2::real) powi (q + k) = 2 powi k * 2 powi q"
  by (simp add: power_int_add mult.commute)

lemma round_half_even_nonneg: "0 \<le> r \<Longrightarrow> 0 \<le> round_half_even r"
  using round_half_even_mono [of 0 r] round_half_even_of_int [of 0] by simp

lemma round_to_double_zero: "round_to_double 0 = 0"
  by (simp add: round_to_double_def)

lemma round_to_double_minus: "round_to_double (- x) = - round_to_double x"
  by (simp add: round_to_double_def round_half_even_minus)

lemma round_to_double_nonneg: "0 \<le> x \<Longrightarrow> 0 \<le> round_to_double x"
  by (simp add: round_to_double_def round_half_even_nonneg)

lemma round_to_double_lower:
  assumes "0 < x" and "- 1074 < grid x"
  shows "2 powi (grid x + 52) \<le> round_to_double x"
proof -
  have "2 powi (grid x + 52) \<le> x"
    using grid_spec [of x] assms(2) by simp
  then have "of_int (2 ^ 52) \<le> x / 2 powi grid x"
    by (simp add: two_powi_split pos_le_divide_eq)
  then have "2 ^ 52 \<le> round_half_even (x / 2 powi grid x)"
    using round_half_even_mono round_half_even_of_int by metis
  then have "(2::real) ^ 52 \<le> of_int (round_half_even (x / 2 powi grid x))"
    by (metis of_int_le_iff of_int_numeral of_int_power)
  then have "2 ^ 52 * 2 powi grid x
      \<le> of_int (round_half_even (x / 2 powi grid x)) * (2::real) powi grid x"
    by (intro mult_right_mono) auto
  then show ?thesis
    using assms(1) by (simp add: round_to_double_def two_powi_split)
qed

lemma round_to_double_upper:
  assumes "0 < x" and "grid x < 971"
  shows "round_to_double x \<le> 2 powi (grid x + 53)"
proof -
  have "x < 2 powi (grid x + 53)"
    using grid_spec [of x] assms(2) by simp
  then have "x / 2 powi grid x \<le> of_int (2 ^ 53)"
    by (simp add: two_powi_split pos_divide_le_eq)
  then have "round_half_even (x / 2 powi grid x) \<le> 2 ^ 53"
    using round_half_even_mono round_half_even_of_int by metis
  then have "of_int (round_half_even (x / 2 powi grid x)) \<le> (2::real) ^ 53"
    by (metis of_int_le_iff of_int_numeral of_int_power)
  then have "of_int (round_half_even (x / 2 powi grid x)) * 2 powi grid x
      \<le> 2 ^ 53 * (2::real) powi grid x"
    by (intro mult_right_mono) auto
  then show ?thesis
    using assms(1) by (simp add: round_to_double_def two_powi_split)
qed

lemma grid_mono:
  assumes "a \<le> b"
  shows "grid a \<le> grid b"
proof (rule ccontr)
  assume "\<not> grid a \<le> grid b"
  then have lt: "grid b < grid a" by simp
  then have "2 powi (grid a + 52) \<le> a" "b < 2 powi (grid b + 53)"
    using grid_spec [of a] grid_spec [of b] by auto
  moreover have "(2::real) powi (grid b + 53) \<le> 2 powi (grid a + 52)"
    using lt by (intro power_int_increasing) auto
  ultimately show False using assms by linarith
qed

lemma round_to_double_mono_pos:
  assumes "0 < x" and "x \<le> y"
  shows "round_to_double x \<le> round_to_double y"
proof (cases "grid x = grid y")
  case True
  have "x / 2 powi grid y \<le> y / 2 powi grid y"
    using assms(2) by (simp add: divide_right_mono)
  then have "round_half_even (x / 2 powi grid y) \<le> round_half_even (y / 2 powi grid y)"
    by (rule round_half_even_mono)
  then have "of_int (round_half_even (x / 2 powi grid y)) * 2 powi grid y
      \<le> of_int (round_half_even (y / 2 powi grid y)) * (2::real) powi grid y"
    by (intro mult_right_mono) auto
  then show ?thesis
    using assms True by (simp add: round_to_double_def)
next
  case False
  then have lt: "grid x < grid y"
    using grid_mono [OF assms(2)] by simp
  have "round_to_double x \<le> 2 powi (grid x + 53)"
    using round_to_double_upper [OF assms(1)] lt grid_spec [of y] by simp
  moreover have "(2::real) powi (grid x + 53) \<le> 2 powi (grid y + 52)"
    using lt by (intro power_int_increasing) auto
  moreover have "2 powi (grid y + 52) \<le> round_to_double y"
    using round_to_double_lower [of y] assms lt grid_spec [of x] by simp
  ultimately show ?thesis by linarith
qed

lemma round_to_double_mono:
  assumes "x \<le> y"
  shows "round_to_double x \<le> round_to_double y"
proof -
  consider "0 < x" | "x \<le> 0" "0 \<le> y" | "y < 0" by linarith
  then show ?thesis
  proof cases
    case 1
    then show ?thesis using assms by (rule round_to_double_mono_pos)
  next
    case 2
    have "round_to_double x \<le> 0"
      using round_to_double_nonneg [of "- x"] 2(1) by (simp add: round_to_double_minus)
    moreover have "0 \<le> round_to_double y"
      using 2(2) by (rule round_to_double_nonneg)
    ultimately show ?thesis by linarith
  next
    case 3
    then have "round_to_double (- y) \<le> round_to_double (- x)"
      using assms by (intro round_to_double_mono_pos) auto
    then show ?thesis by (simp add: round_to_double_minus)
  qed
qed

lemma round_to_double_grid_value:
  assumes "0 < n" and "grid (of_int n * 2 powi q) = q"
  shows "round_to_double (of_int n * 2 powi q) = of_int n * 2 powi q"
  using assms by (simp add: round_to_double_def abs_mult round_half_even_of_int)

lemma round_to_double_idem_pos:
  assumes "0 < x"
  shows "round_to_double (round_to_double x) = round_to_double x"
proof -
  define q where "q = grid x"
  define n where "n = round_half_even (x / 2 powi q)"
  have y: "round_to_double x = of_int n * 2 powi q"
    using assms by (simp add: round_to_double_def q_def n_def)
  have n0: "0 \<le> n"
    using assms by (simp add: n_def round_half_even_nonneg)
  have qr: "- 1074 \<le> q" "q \<le> 971"
    using grid_spec [of x] by (simp_all add: q_def)
  show ?thesis
  proof (cases "n = 0")
    case True
    then have "round_to_double x = 0" by (simp add: y)
    then show ?thesis by (simp only: round_to_double_zero)
  next
    case False
    then have npos: "0 < n" using n0 by simp
    have lo: "(2::real) ^ 52 \<le> of_int n" if "- 1074 < q"
    proof -
      have "2 powi (q + 52) \<le> of_int n * (2::real) powi q"
        using round_to_double_lower [OF assms] that by (simp add: y q_def [symmetric])
      then show ?thesis by (simp add: two_powi_split)
    qed
    have hi: "of_int n \<le> (2::real) ^ 53" if "q < 971"
    proof -
      have "of_int n * 2 powi q \<le> (2::real) powi (q + 53)"
        using round_to_double_upper [OF assms] that by (simp add: y q_def [symmetric])
      then show ?thesis by (simp add: two_powi_split)
    qed
    show ?thesis
    proof (cases "q < 971 \<and> of_int n = (2::real) ^ 53")
      case True
      then have val: "of_int n * 2 powi q = of_int (2 ^ 52) * (2::real) powi (q + 1)"
        by (simp add: two_powi_split)
      have "grid (of_int (2 ^ 52) * (2::real) powi (q + 1)) = q + 1"
      proof (rule grid_unique)
        show "- 1074 \<le> q + 1" "q + 1 \<le> 971" using qr True by simp_all
        have a: "(2::real) powi (q + 1 + 52) = of_int (2 ^ 52) * 2 powi (q + 1)"
          using two_powi_split [of "q + 1" 52] by simp
        have b: "(2::real) powi (q + 1 + 53) = of_int (2 ^ 53) * 2 powi (q + 1)"
          using two_powi_split [of "q + 1" 53] by simp
        show "- 1074 < q + 1 \<longrightarrow>
                2 powi (q + 1 + 52) \<le> of_int (2 ^ 52) * (2::real) powi (q + 1)"
          unfolding a by simp
        show "q + 1 < 971 \<longrightarrow>
                of_int (2 ^ 52) * (2::real) powi (q + 1) < 2 powi (q + 1 + 53)"
          unfolding b by simp
      qed
      then have "round_to_double (of_int (2 ^ 52) * (2::real) powi (q + 1))
                  = of_int (2 ^ 52) * 2 powi (q + 1)"
        by (intro round_to_double_grid_value) simp_all
      then show ?thesis by (simp only: y val)
    next
      case False
      have "grid (of_int n * 2 powi q) = q"
      proof (rule grid_unique)
        show "- 1074 \<le> q" "q \<le> 971" by (rule qr)+
        show "- 1074 < q \<longrightarrow> 2 powi (q + 52) \<le> of_int n * (2::real) powi q"
          using lo by (simp add: two_powi_split)
        show "q < 971 \<longrightarrow> of_int n * (2::real) powi q < 2 powi (q + 53)"
          using hi False by (auto simp: two_powi_split)
      qed
      then show ?thesis
        using npos by (simp add: y round_to_double_grid_value)
    qed
  qed
qed

lemma round_to_double_idem: "round_to_double (round_to_double x) = round_to_double x"
proof -
  consider "0 < x" | "x = 0" | "x < 0" by linarith
  then show ?thesis
  proof cases
    case 1
    then show ?thesis by (rule round_to_double_idem_pos)
  next
    case 2
    then show ?thesis by (simp add: round_to_double_def)
  next
    case 3
    then have "round_to_double (round_to_double (- x)) = round_to_double (- x)"
      by (intro round_to_double_idem_pos) simp
    then show ?thesis by (simp add: round_to_double_minus)
  qed
qed

subsection \<open>Numbers that are not negative\<close>

lemma js_round_cases:
  "js_round x = Infinity \<and> 2 powi 1024 \<le> round_to_double x
   \<or> js_round x = NegInfinity \<and> round_to_double x \<le> - (2 powi 1024)
   \<or> js_round x = Finite (round_to_double x)
       \<and> - (2 powi 1024) < round_to_double x \<and> round_to_double x < 2 powi 1024"
  by (auto simp: js_round_def Let_def)

lemma js_round_nonneg:
  assumes "0 \<le> x"
  shows "nonneg_double (js_round x)"
proof -
  have "0 \<le> round_to_double x"
    using assms by (rule round_to_double_nonneg)
  moreover have "(0::real) < 2 powi 1024" by simp
  ultimately show ?thesis
    using js_round_cases [of x] round_to_double_idem [of x] by auto
qed

lemma js_round_mono:
  assumes "x \<le> y"
  shows "js_le (js_round x) (js_round y)"
proof -
  have "round_to_double x \<le> round_to_double y"
    using assms by (rule round_to_double_mono)
  moreover have "(0::real) < 2 powi 1024" by simp
  ultimately show ?thesis
    using js_round_cases [of x] js_round_cases [of y] by auto
qed

lemma js_round_fixed:
  "nonneg_double (Finite a) \<Longrightarrow> js_round a = Finite a"
  by (simp add: js_round_def Let_def)

lemma js_le_trans: "js_le x y \<Longrightarrow> js_le y z \<Longrightarrow> js_le x z"
  by (cases x; cases y; cases z) auto

lemma js_le_refl: "nonneg_double x \<Longrightarrow> js_le x x"
  by (cases x) auto

lemma js_mul_nonneg:
  assumes "js_le (Finite 0) d" and "0 < b"
  shows "nonneg_double (js_mul d (Finite b))"
proof (cases d)
  case (Finite x)
  then have "0 \<le> x * b" using assms by simp
  then show ?thesis using Finite by (simp add: js_round_nonneg)
next
  case Infinity
  then show ?thesis using assms(2) by simp
qed (use assms in simp_all)

lemma js_add_nonneg:
  assumes "nonneg_double v" and "nonneg_double p"
  shows "js_le v (js_add v p) \<and> nonneg_double (js_add v p)"
proof (cases v)
  case va: (Finite a)
  show ?thesis
  proof (cases p)
    case (Finite c)
    have "a \<le> a + c" "0 \<le> a + c"
      using assms va Finite by simp_all
    then have "js_le (js_round a) (js_round (a + c))" "nonneg_double (js_round (a + c))"
      by (simp_all add: js_round_mono js_round_nonneg)
    then show ?thesis
      using js_round_fixed [of a] assms(1) va Finite by simp
  qed (use assms va in simp_all)
next
  case Infinity
  then show ?thesis using assms(2) by (cases p) simp_all
qed (use assms in simp_all)

lemma js_mul_1000_mono:
  assumes "nonneg_double v" and "nonneg_double w" and "js_le v w"
  shows "js_le (js_mul v (Finite 1000)) (js_mul w (Finite 1000))"
proof (cases v)
  case va: (Finite a)
  show ?thesis
  proof (cases w)
    case (Finite c)
    then have "a * 1000 \<le> c * 1000" using assms(3) va by simp
    then show ?thesis using va Finite by (simp add: js_round_mono)
  next
    case Infinity
    then show ?thesis
      using va js_round_cases [of "a * 1000"] by auto
  qed (use assms in simp_all)
next
  case Infinity
  then show ?thesis using assms by (cases w) simp_all
qed (use assms in simp_all)

lemma offsets_from_sorted:
  assumes "nonneg_double d0"
      and "\<forall>x\<in>set notes. js_le (Finite 0) (duration_js x)"
      and "0 < b"
  shows "sorted_wrt js_le (offsets_from (Finite b) d0 notes)
       \<and> (\<forall>t\<in>set (offsets_from (Finite b) d0 notes). js_le d0 t \<and> nonneg_double t)"
  using assms(1,2)
proof (induction "notes" arbitrary: d0)
  case Nil
  then show ?case by (simp add: js_le_refl)
next
  case (Cons x xs)
  define d1 where "d1 = js_add d0 (js_mul (duration_js x) (Finite b))"
  have p: "nonneg_double (js_mul (duration_js x) (Finite b))"
    using Cons.prems(2) assms(3) by (simp add: js_mul_nonneg)
  have d1: "js_le d0 d1" "nonneg_double d1"
    using js_add_nonneg [OF Cons.prems(1) p] by (simp_all add: d1_def)
  have ih: "sorted_wrt js_le (offsets_from (Finite b) d1 xs)"
           "\<forall>t\<in>set (offsets_from (Finite b) d1 xs). js_le d1 t \<and> nonneg_double t"
    using Cons.IH [OF d1(2)] Cons.prems(2) by simp_all
  have "\<forall>t\<in>set (offsets_from (Finite b) d1 xs). js_le d0 t"
    using ih(2) d1(1) js_le_trans by blast
  then show ?case
    using ih Cons.prems(1) by (simp add: d1_def [symmetric] js_le_refl)
qed

lemma delays_sorted:
  assumes "sorted_wrt js_le ts" and "\<forall>t\<in>set ts. nonneg_double t"
  shows "sorted_wrt js_le (map (\<lambda>t. js_mul t (Finite 1000)) ts)"
  using assms
  by (induction ts) (auto simp: js_mul_1000_mono)

subsection \<open>The delays that a run passes to \<open>scheduleAction\<close>\<close>

lemma offsets_from_nonempty: "offsets_from B d notes \<noteq> []"
  by (cases "notes") simp_all

lemma scheduleNotePlay_js_record:
  "scheduleNotePlay_js record_action_js B x k delay ap ons calls =
      (js_add delay (js_mul (duration_js x) B),
       calls @ [([OnNoteStart_js ons k, PlayChord_js ap (keys_js x) (js_mul (duration_js x) B)],
                 js_mul delay (Finite 1000))])"
  by (simp add: scheduleNotePlay_js_def record_action_js_def)

lemma reduce_notes_js_total:
  "fst (reduce_notes_js record_action_js B notes k delay ap ons calls) =
     last (offsets_from B delay notes)"
proof (induction "notes" arbitrary: k delay calls)
  case Nil
  show ?case by simp
next
  case (Cons x xs)
  show ?case
    by (simp add: scheduleNotePlay_js_record Cons.IH offsets_from_nonempty)
qed

lemma reduce_notes_js_delays:
  "map snd (snd (reduce_notes_js record_action_js B notes k delay ap ons calls)) =
     map snd calls @ map (\<lambda>t. js_mul t (Finite 1000)) (butlast (offsets_from B delay notes))"
proof (induction "notes" arbitrary: k delay calls)
  case Nil
  show ?case by simp
next
  case (Cons x xs)
  show ?case
    by (simp add: scheduleNotePlay_js_record Cons.IH offsets_from_nonempty)
qed

lemma playAllNotes_js_last:
  "last (playAllNotes_js record_action_js B notes ap ons onc []) =
     ([OnComplete_js onc], js_mul (last (offsets_from B (Finite 0) notes)) (Finite 1000))"
proof -
  obtain t cs where r: "reduce_notes_js record_action_js B notes 0 (Finite 0) ap ons [] = (t, cs)"
    by (cases "reduce_notes_js record_action_js B notes 0 (Finite 0) ap ons []")
  have "t = last (offsets_from B (Finite 0) notes)"
    using reduce_notes_js_total [of B "notes" 0 "Finite 0" ap ons "[]"] r by simp
  then show ?thesis
    by (simp add: playAllNotes_js_def r record_action_js_def)
qed

lemma playAllNotes_js_delays:
  "map snd (playAllNotes_js record_action_js B notes ap ons onc []) =
     map (\<lambda>t. js_mul t (Finite 1000)) (offsets_from B (Finite 0) notes)"
proof -
  obtain t cs where r: "reduce_notes_js record_action_js B notes 0 (Finite 0) ap ons [] = (t, cs)"
    by (cases "reduce_notes_js record_action_js B notes 0 (Finite 0) ap ons []")
  have t: "t = last (offsets_from B (Finite 0) notes)"
    using reduce_notes_js_total [of B "notes" 0 "Finite 0" ap ons "[]"] r by simp
  have cs: "map snd cs =
      map (\<lambda>t. js_mul t (Finite 1000)) (butlast (offsets_from B (Finite 0) notes))"
    using reduce_notes_js_delays [of B "notes" 0 "Finite 0" ap ons "[]"] r by simp
  have "map snd (playAllNotes_js record_action_js B notes ap ons onc []) =
      map snd cs @ [js_mul t (Finite 1000)]"
    by (simp add: playAllNotes_js_def r record_action_js_def)
  also have "\<dots> = map (\<lambda>t. js_mul t (Finite 1000))
                    (butlast (offsets_from B (Finite 0) notes)
                     @ [last (offsets_from B (Finite 0) notes)])"
    by (simp add: cs t)
  finally show ?thesis
    by (simp only: append_butlast_last_id [OF offsets_from_nonempty])
qed

subsection \<open>The action of one note, and the empty sequence\<close>

text \<open>
  In the program's arithmetic too, the action armed for the note at position \<open>i\<close> calls
  \<open>onNoteStart(i)\<close> and then \<open>playChord\<close> with the note's keys and its duration times the
  beat duration, and the empty sequence arms the completion alone, with no delay.
\<close>

lemma reduce_notes_js_length:
  "length (snd (reduce_notes_js record_action_js B notes k delay ap ons calls)) =
     length calls + length notes"
proof (induction "notes" arbitrary: k delay calls)
  case Nil
  show ?case by simp
next
  case (Cons x xs)
  show ?case by (simp add: scheduleNotePlay_js_record Cons.IH)
qed

lemma reduce_notes_js_prefix:
  "j < length calls \<Longrightarrow>
   snd (reduce_notes_js record_action_js B notes k delay ap ons calls) ! j = calls ! j"
proof (induction "notes" arbitrary: k delay calls)
  case Nil
  show ?case by simp
next
  case (Cons x xs)
  then show ?case by (simp add: scheduleNotePlay_js_record Cons.IH nth_append)
qed

lemma reduce_notes_js_nth:
  "i < length notes \<Longrightarrow>
   snd (reduce_notes_js record_action_js B notes k delay ap ons calls) ! (length calls + i) =
     ([OnNoteStart_js ons (k + i),
       PlayChord_js ap (keys_js (notes ! i)) (js_mul (duration_js (notes ! i)) B)],
      js_mul (offsets_from B delay notes ! i) (Finite 1000))"
proof (induction "notes" arbitrary: i k delay calls)
  case Nil
  then show ?case by simp
next
  case (Cons x xs)
  show ?case
  proof (cases i)
    case 0
    then show ?thesis
      by (simp add: scheduleNotePlay_js_record reduce_notes_js_prefix)
  next
    case (Suc m)
    then have m: "m < length xs" using Cons.prems by simp
    show ?thesis
      using Cons.IH [OF m, of "Suc k" "js_add delay (js_mul (duration_js x) B)"
          "calls @ [([OnNoteStart_js ons k, PlayChord_js ap (keys_js x) (js_mul (duration_js x) B)],
                     js_mul delay (Finite 1000))]"]
      by (simp add: scheduleNotePlay_js_record Suc)
  qed
qed

lemma playAllNotes_js_note_action:
  assumes "i < length notes"
  shows "playAllNotes_js record_action_js B notes ap ons onc [] ! i =
           ([OnNoteStart_js ons i,
             PlayChord_js ap (keys_js (notes ! i)) (js_mul (duration_js (notes ! i)) B)],
            js_mul (offsets_from B (Finite 0) notes ! i) (Finite 1000))"
proof -
  obtain t cs where r: "reduce_notes_js record_action_js B notes 0 (Finite 0) ap ons [] = (t, cs)"
    by (cases "reduce_notes_js record_action_js B notes 0 (Finite 0) ap ons []")
  have len: "length cs = length notes"
    using reduce_notes_js_length [of B "notes" 0 "Finite 0" ap ons "[]"] r by simp
  have "cs ! i = ([OnNoteStart_js ons i,
             PlayChord_js ap (keys_js (notes ! i)) (js_mul (duration_js (notes ! i)) B)],
            js_mul (offsets_from B (Finite 0) notes ! i) (Finite 1000))"
    using reduce_notes_js_nth [OF assms, of B 0 "Finite 0" ap ons "[]"] r by simp
  then show ?thesis
    using assms len by (simp add: playAllNotes_js_def r record_action_js_def nth_append)
qed

lemma playAllNotes_js_empty:
  "playAllNotes_js sa B [] ap ons onc s = sa [OnComplete_js onc] (Finite 0) s"
  by (simp add: playAllNotes_js_def js_round_def round_to_double_def)

subsection \<open>Offsets\<close>

lemma js_round_two_notes:
  "js_round 0.1 = Finite (3602879701896397 / 36028797018963968)"
  "js_round 0.7 = Finite (3152519739159347 / 4503599627370496)"
  "js_round 3 = Finite 3"
  by (simp_all add: js_round_def round_to_double_def round_half_even_def grid_def
                    grid_down.simps Let_def)

text \<open>
  Claim C1, as stated: the offset of note \<open>i\<close> is the prefix sum
  \<open>(d0 + ... + d(i-1)) * B\<close> and the completion is armed at \<open>(d0 + ... + d(n-1)) * B\<close>.
  The fold adds the rounded products one by one, each sum rounded again. For two notes of
  0.1 and 0.7 beats and a beat of 3 seconds it arms the completion at
  2399.9999999999995 ms, the double \<open>5277655813324799 / 2199023255552\<close>, while
  \<open>(0.1 + 0.7) * 3\<close> seconds are 2400 ms, also when computed in numbers.
\<close>

theorem playAllNotes_js_counterexample:
  "last (playAllNotes_js record_action_js (js_round 3) two_notes_js
           ''engine'' ''onNoteStart'' ''onComplete'' [])
     = ([OnComplete_js ''onComplete''], Finite (5277655813324799 / 2199023255552)) \<and>
   js_mul (js_mul (js_add (js_round 0.1) (js_round 0.7)) (js_round 3)) (Finite 1000)
     = Finite 2400"
  by (simp add: playAllNotes_js_last two_notes_js_def js_round_two_notes
                js_round_def round_to_double_def round_half_even_def grid_def
                grid_down.simps grid_up.simps Let_def)

text \<open>
  Claim C1, amended: the fold computes the offsets by the recurrence of the data model,
  \<open>offset[0] = 0\<close> and \<open>offset[i+1] = offset[i] + d_i * B\<close>, in the arithmetic of numbers,
  where each product and each sum is rounded; they are the prefix sums times \<open>B\<close> only up
  to that rounding. It arms the action of note \<open>i\<close> at \<open>offset[i] * 1000\<close> milliseconds
  and, last, the completion at \<open>offset[n] * 1000\<close>. When no duration is negative and the
  beat duration is positive and finite, neither the offsets nor the delays passed to
  \<open>scheduleAction\<close> decrease.
\<close>

theorem playAllNotes_js_offsets:
  "map snd (playAllNotes_js record_action_js B notes ap ons onc []) =
     map (\<lambda>t. js_mul t (Finite 1000)) (offsets_from B (Finite 0) notes)
   \<and> last (playAllNotes_js record_action_js B notes ap ons onc []) =
       ([OnComplete_js onc], js_mul (last (offsets_from B (Finite 0) notes)) (Finite 1000))
   \<and> hd (offsets_from B (Finite 0) notes) = Finite 0
   \<and> ((\<forall>x\<in>set notes. js_le (Finite 0) (duration_js x)) \<and> B = Finite b \<and> 0 < b \<longrightarrow>
        sorted_wrt js_le (offsets_from B (Finite 0) notes) \<and>
        sorted_wrt js_le (map snd (playAllNotes_js record_action_js B notes ap ons onc [])))"
proof -
  have hd0: "hd (offsets_from B (Finite 0) notes) = Finite 0"
    by (cases "notes") simp_all
  have z: "nonneg_double (Finite 0)"
    by (simp add: round_to_double_zero)
  have "sorted_wrt js_le (offsets_from B (Finite 0) notes) \<and>
        sorted_wrt js_le (map snd (playAllNotes_js record_action_js B notes ap ons onc []))"
    if "\<forall>x\<in>set notes. js_le (Finite 0) (duration_js x)" "B = Finite b" "0 < b"
  proof -
    note s = offsets_from_sorted [OF z that(1) that(3)]
    have "sorted_wrt js_le (map (\<lambda>t. js_mul t (Finite 1000)) (offsets_from (Finite b) (Finite 0) notes))"
      using s by (intro delays_sorted) auto
    then show ?thesis
      using s that(2) by (simp add: playAllNotes_js_delays)
  qed
  then show ?thesis
    using hd0 playAllNotes_js_delays [of B "notes" ap ons onc]
          playAllNotes_js_last [of B "notes" ap ons onc]
    by blast
qed

theorem playAllNotes_js_offsets_witness:
  "list_all (\<lambda>x. js_le (Finite 0) (duration_js x)) two_notes_js \<and>
   js_round 3 = Finite 3 \<and> (0::real) < 3 \<and>
   offsets_from (js_round 3) (Finite 0) two_notes_js =
     [Finite 0, Finite (1351079888211149 / 4503599627370496),
      Finite (2702159776422297 / 1125899906842624)] \<and>
   sorted_wrt js_le (offsets_from (js_round 3) (Finite 0) two_notes_js) \<and>
   map snd (playAllNotes_js record_action_js (js_round 3) two_notes_js
              ''engine'' ''onNoteStart'' ''onComplete'' []) =
     [Finite 0, Finite (5277655813324801 / 17592186044416),
      Finite (5277655813324799 / 2199023255552)]"
proof -
  have d: "\<forall>x\<in>set two_notes_js. js_le (Finite 0) (duration_js x)"
    by (simp add: two_notes_js_def js_round_two_notes)
  have b: "js_round 3 = Finite 3"
    by (rule js_round_two_notes)
  have offs: "offsets_from (Finite 3) (Finite 0) two_notes_js =
     [Finite 0, Finite (1351079888211149 / 4503599627370496),
      Finite (2702159776422297 / 1125899906842624)]"
    by (simp add: two_notes_js_def js_round_two_notes
                  js_round_def round_to_double_def round_half_even_def grid_def
                  grid_down.simps grid_up.simps Let_def)
  have ms: "map (\<lambda>t. js_mul t (Finite 1000))
              [Finite 0, Finite (1351079888211149 / 4503599627370496),
               Finite (2702159776422297 / 1125899906842624)] =
     [Finite 0, Finite (5277655813324801 / 17592186044416),
      Finite (5277655813324799 / 2199023255552)]"
    by (simp add: js_round_def round_to_double_def round_half_even_def grid_def
                  grid_down.simps grid_up.simps Let_def)
  note th = playAllNotes_js_offsets
              [of "Finite 3" two_notes_js "''engine''" "''onNoteStart''" "''onComplete''" 3]
  have delays: "map snd (playAllNotes_js record_action_js (Finite 3) two_notes_js
                    ''engine'' ''onNoteStart'' ''onComplete'' []) =
      map (\<lambda>t. js_mul t (Finite 1000)) (offsets_from (Finite 3) (Finite 0) two_notes_js)"
    using th by blast
  have sorted: "sorted_wrt js_le (offsets_from (Finite 3) (Finite 0) two_notes_js)"
    using th d by simp
  have delays2: "map snd (playAllNotes_js record_action_js (Finite 3) two_notes_js
                    ''engine'' ''onNoteStart'' ''onComplete'' []) =
     [Finite 0, Finite (5277655813324801 / 17592186044416),
      Finite (5277655813324799 / 2199023255552)]"
    by (simp only: delays offs ms)
  have dl: "list_all (\<lambda>x. js_le (Finite 0) (duration_js x)) two_notes_js"
    using d by (simp only: list_all_iff)
  show ?thesis
    unfolding b using dl offs sorted delays2 by simp
qed

end
